theory Spec2Isabelle
  imports Complex_Main
begin

section \<open>JavaScript numbers\<close>

text \<open>
  The calculator of \<^verbatim>\<open>src/App.tsx\<close> computes on JavaScript numbers, that is on IEEE 754
  binary64 values. A number is modelled by its exact value: \<open>Val r\<close> is the finite double
  whose value is the rational \<open>r\<close> (\<open>Val 0\<close> is \<open>+0\<close>), \<open>NegZero\<close> is \<open>-0\<close>, and the
  three special values are constructors of their own. Every operation computes the exact
  rational result and rounds it once to the nearest double, ties to even, as IEEE 754
  prescribes.
\<close>

datatype number = NaN | PosInf | NegInf | NegZero | Val rat

text \<open>Powers with an integer exponent, by repeated squaring.\<close>

function pow_sq :: "'a::monoid_mult \<Rightarrow> int \<Rightarrow> 'a" where
  "pow_sq b e =
     (if e \<le> 0 then 1
      else if even e then pow_sq (b * b) (e div 2)
      else b * pow_sq (b * b) (e div 2))"
  by pat_completeness auto
termination
  by (relation "measure (\<lambda>(b, e). nat e)") auto

definition ipow :: "int \<Rightarrow> int \<Rightarrow> rat" where
  "ipow b e = (if 0 \<le> e then of_int (pow_sq b e) else 1 / of_int (pow_sq b (- e)))"

text \<open>
  \<open>ilogi b n\<close> is \<open>\<lfloor>log\<^sub>b n\<rfloor>\<close> for integers \<open>b \<ge> 2\<close> and \<open>n \<ge> 1\<close>: twice the logarithm to
  the base \<open>b\<^sup>2\<close>, or one more.
\<close>

function ilogi :: "int \<Rightarrow> int \<Rightarrow> int" where
  "ilogi b n =
     (if n < b \<or> b < 2 then 0
      else let k = 2 * ilogi (b * b) n
           in if n < pow_sq b (k + 1) then k else k + 1)"
  by pat_completeness auto
termination
proof (relation "measure (\<lambda>(b, n). nat (n + 1 - b))")
  show "wf (measure (\<lambda>(b, n). nat (n + 1 - b)))"
    by simp
next
  fix b n :: int
  assume "\<not> (n < b \<or> b < 2)"
  then have b: "2 \<le> b" and n: "b \<le> n"
    by simp_all
  from b have "b * 2 \<le> b * b"
    by (intro mult_left_mono) simp_all
  with b n show "((b * b, n), (b, n)) \<in> measure (\<lambda>(b, n). nat (n + 1 - b))"
    by simp
qed

text \<open>\<open>ilog b a\<close> is \<open>\<lfloor>log\<^sub>b a\<rfloor>\<close> for a rational \<open>a > 0\<close>.\<close>

definition ilog :: "int \<Rightarrow> rat \<Rightarrow> int" where
  "ilog b a =
     (if 1 \<le> a then ilogi b \<lfloor>a\<rfloor>
      else - (ilogi b (\<lceil>1 / a\<rceil> - 1) + 1))"

definition round_half_even :: "rat \<Rightarrow> int" where
  "round_half_even m =
     (let n = \<lfloor>m\<rfloor>; f = m - of_int n
      in if f < 1 / 2 then n else if 1 / 2 < f then n + 1
         else if even n then n else n + 1)"

text \<open>
  Rounding of an exact result to binary64: 53 significant bits, least exponent \<open>-1022\<close>
  (below it the spacing stays \<open>2\<^sup>-\<^sup>1\<^sup>0\<^sup>7\<^sup>4\<close>: subnormal numbers), overflow to infinity from
  \<open>2\<^sup>1\<^sup>0\<^sup>2\<^sup>4\<close> on. A nonzero value that rounds to zero keeps its sign.
\<close>

definition fl :: "rat \<Rightarrow> number" where
  "fl r =
     (if r = 0 then Val 0
      else
        let a = \<bar>r\<bar>;
            e = max (ilog 2 a) (- 1022);
            q = ipow 2 (e - 52);
            n = round_half_even (a / q);
            v = of_int n * q
        in if ipow 2 1024 \<le> v then (if r < 0 then NegInf else PosInf)
           else if n = 0 then (if r < 0 then NegZero else Val 0)
           else Val (if r < 0 then - v else v))"

fun isNaN :: "number \<Rightarrow> bool" where
  "isNaN NaN = True"
| "isNaN _ = False"

fun isFinite :: "number \<Rightarrow> bool" where
  "isFinite NaN = False"
| "isFinite PosInf = False"
| "isFinite NegInf = False"
| "isFinite _ = True"

fun is_inf :: "number \<Rightarrow> bool" where
  "is_inf PosInf = True"
| "is_inf NegInf = True"
| "is_inf _ = False"

text \<open>\<open>x === 0\<close>: both zeros compare equal to \<open>0\<close>.\<close>

fun strict_eq_zero :: "number \<Rightarrow> bool" where
  "strict_eq_zero NegZero = True"
| "strict_eq_zero (Val r) = (r = 0)"
| "strict_eq_zero _ = False"

fun sign_bit :: "number \<Rightarrow> bool" where
  "sign_bit NegInf = True"
| "sign_bit NegZero = True"
| "sign_bit (Val r) = (r < 0)"
| "sign_bit _ = False"

fun val :: "number \<Rightarrow> rat" where
  "val (Val r) = r"
| "val _ = 0"

definition signed_inf :: "bool \<Rightarrow> number" where
  "signed_inf neg = (if neg then NegInf else PosInf)"

definition signed_zero :: "bool \<Rightarrow> number" where
  "signed_zero neg = (if neg then NegZero else Val 0)"

fun num_neg :: "number \<Rightarrow> number" where
  "num_neg NaN = NaN"
| "num_neg PosInf = NegInf"
| "num_neg NegInf = PosInf"
| "num_neg NegZero = Val 0"
| "num_neg (Val r) = (if r = 0 then NegZero else Val (- r))"

text \<open>The operators \<open>+\<close>, \<open>-\<close>, \<open>*\<close> and \<open>/\<close> on numbers.\<close>

definition num_add :: "number \<Rightarrow> number \<Rightarrow> number" where
  "num_add x y =
     (if isNaN x \<or> isNaN y then NaN
      else if is_inf x \<and> is_inf y then (if sign_bit x = sign_bit y then x else NaN)
      else if is_inf x then x
      else if is_inf y then y
      else if x = NegZero \<and> y = NegZero then NegZero
      else fl (val x + val y))"

definition num_sub :: "number \<Rightarrow> number \<Rightarrow> number" where
  "num_sub x y = num_add x (num_neg y)"

definition num_mul :: "number \<Rightarrow> number \<Rightarrow> number" where
  "num_mul x y =
     (if isNaN x \<or> isNaN y then NaN
      else if (is_inf x \<and> strict_eq_zero y) \<or> (strict_eq_zero x \<and> is_inf y) then NaN
      else if is_inf x \<or> is_inf y then signed_inf (sign_bit x \<noteq> sign_bit y)
      else if strict_eq_zero x \<or> strict_eq_zero y then signed_zero (sign_bit x \<noteq> sign_bit y)
      else fl (val x * val y))"

definition num_div :: "number \<Rightarrow> number \<Rightarrow> number" where
  "num_div x y =
     (if isNaN x \<or> isNaN y then NaN
      else if (is_inf x \<and> is_inf y) \<or> (strict_eq_zero x \<and> strict_eq_zero y) then NaN
      else if is_inf x \<or> strict_eq_zero y then signed_inf (sign_bit x \<noteq> sign_bit y)
      else if is_inf y \<or> strict_eq_zero x then signed_zero (sign_bit x \<noteq> sign_bit y)
      else fl (val x / val y))"

text \<open>
  \<open>Math.round\<close>: the integer closest to the argument, the one closer to \<open>+\<infinity>\<close> of two
  equally close ones; \<open>-0\<close> for an argument in \<open>[-0.5, 0)\<close>. Integral arguments, zeros,
  infinities and NaN are returned as they are.
\<close>

fun Math_round :: "number \<Rightarrow> number" where
  "Math_round (Val r) =
     (if r = of_int \<lfloor>r\<rfloor> then Val r
      else let n = \<lfloor>r + 1 / 2\<rfloor>
           in if n = 0 \<and> r < 0 then NegZero else Val (of_int n))"
| "Math_round x = x"

text \<open>\<open>x || 0\<close> on a number: the falsy numbers are both zeros and NaN.\<close>

definition or_zero :: "number \<Rightarrow> number" where
  "or_zero x = (if strict_eq_zero x \<or> isNaN x then Val 0 else x)"

subsection \<open>Number to string\<close>

definition digit_char :: "int \<Rightarrow> char" where
  "digit_char d = ''0123456789'' ! nat d"

function digits_of :: "int \<Rightarrow> string" where
  "digits_of n =
     (if n < 10 then [digit_char n] else digits_of (n div 10) @ [digit_char (n mod 10)])"
  by pat_completeness auto
termination
  by (relation "measure nat") (auto simp: not_less intro!: int_div_less_self)

fun first_some :: "('a \<Rightarrow> 'b option) \<Rightarrow> 'a list \<Rightarrow> 'b option" where
  "first_some f [] = None"
| "first_some f (x # xs) = (case f x of Some y \<Rightarrow> Some y | None \<Rightarrow> first_some f xs)"

text \<open>
  \<open>Number::toString\<close> asks for integers \<open>n\<close>, \<open>k\<close>, \<open>s\<close> with \<open>k \<ge> 1\<close>,
  \<open>10\<^sup>k\<^sup>-\<^sup>1 \<le> s < 10\<^sup>k\<close>, \<open>s \<times> 10\<^sup>n\<^sup>-\<^sup>k\<close> rounding to the number \<open>x\<close>, and \<open>k\<close> as small as
  possible; of several such \<open>s\<close> the one closest to \<open>x\<close>, the even one of two equally
  close. For a given \<open>k\<close> only the two \<open>k\<close>-digit decimals around \<open>x\<close> can qualify:
  \<open>candidate\<close> tests them. The upper one may be \<open>10\<^sup>k\<close>, which is \<open>10\<^sup>k\<^sup>-\<^sup>1\<close> one decimal
  exponent higher.
\<close>

definition candidate :: "rat \<Rightarrow> int \<Rightarrow> int \<Rightarrow> (int \<times> int \<times> int) option" where
  "candidate x n0 k =
     (let scale = ipow 10 (n0 - k);
          lo = \<lfloor>x / scale\<rfloor>;
          hi = lo + 1;
          ok_lo = (fl (of_int lo * scale) = Val x);
          ok_hi = (fl (of_int hi * scale) = Val x);
          d_lo = x - of_int lo * scale;
          d_hi = of_int hi * scale - x;
          pick_lo =
            (ok_lo \<and> (if ok_hi then d_lo < d_hi \<or> (d_lo = d_hi \<and> even lo) else True))
      in if pick_lo then Some (n0, k, lo)
         else if ok_hi then
           (if of_int hi = ipow 10 k then Some (n0 + 1, k, hi div 10) else Some (n0, k, hi))
         else None)"

text \<open>
  Seventeen significant digits identify every double, so the search ends at \<open>k \<le> 17\<close>;
  the last line is there to make the function total.
\<close>

definition shortest :: "rat \<Rightarrow> int \<times> int \<times> int" where
  "shortest x =
     (let n0 = ilog 10 x + 1
      in case first_some (candidate x n0) [1..17] of
           Some nks \<Rightarrow> nks
         | None \<Rightarrow> (n0, 17, \<lfloor>x / ipow 10 (n0 - 17)\<rfloor>))"

definition zeros :: "int \<Rightarrow> string" where
  "zeros n = replicate (nat n) (CHR ''0'')"

definition format_positive :: "rat \<Rightarrow> string" where
  "format_positive x =
     (let (n, k, s) = shortest x; ds = digits_of s
      in if - 5 \<le> n \<and> n \<le> 21 then
           (if k \<le> n then ds @ zeros (n - k)
            else if 0 < n then take (nat n) ds @ ''.'' @ drop (nat n) ds
            else ''0.'' @ zeros (- n) @ ds)
         else
           (let exponent = (if n < 0 then ''-'' else ''+'') @ digits_of \<bar>n - 1\<bar>
            in if k = 1 then ds @ ''e'' @ exponent
               else take 1 ds @ ''.'' @ drop 1 ds @ ''e'' @ exponent))"

text \<open>\<open>String(x)\<close> for a number \<open>x\<close>.\<close>

fun String :: "number \<Rightarrow> string" where
  "String NaN = ''NaN''"
| "String PosInf = ''Infinity''"
| "String NegInf = ''-Infinity''"
| "String NegZero = ''0''"
| "String (Val r) =
     (if r = 0 then ''0''
      else if r < 0 then ''-'' @ format_positive (- r)
      else format_positive r)"

subsection \<open>String to number\<close>

definition is_digit :: "char \<Rightarrow> bool" where
  "is_digit c = (c \<in> set ''0123456789'')"

text \<open>
  The white space and line terminator characters that \<open>parseFloat\<close> skips, as far as
  they are characters of one byte: tab, line feed, vertical tab, form feed, carriage
  return, space and the no-break space \<open>U+00A0\<close>.
\<close>

definition is_space :: "char \<Rightarrow> bool" where
  "is_space c =
     (c \<in> set [CHR 0x09, CHR 0x0A, CHR 0x0B, CHR 0x0C, CHR 0x0D, CHR '' '', CHR 0xA0])"

definition digit_val :: "char \<Rightarrow> int" where
  "digit_val c = of_char c - 48"

definition dec_value :: "string \<Rightarrow> int" where
  "dec_value ds = foldl (\<lambda>a c. 10 * a + digit_val c) 0 ds"

fun starts_with :: "string \<Rightarrow> string \<Rightarrow> bool" where
  "starts_with [] s = True"
| "starts_with (p # ps) [] = False"
| "starts_with (p # ps) (c # cs) = (p = c \<and> starts_with ps cs)"

text \<open>
  The value of an \<open>ExponentPart\<close> at the head of the string, \<open>0\<close> when there is none
  (an \<open>e\<close> without digits after it does not belong to the numeral).
\<close>

definition parse_exponent :: "string \<Rightarrow> int" where
  "parse_exponent s =
     (case s of
        [] \<Rightarrow> 0
      | c # r \<Rightarrow>
          if c = CHR ''e'' \<or> c = CHR ''E'' then
            (let (sg, r') =
                   (case r of
                      [] \<Rightarrow> (1, r)
                    | d # t \<Rightarrow>
                        if d = CHR ''+'' then (1, t)
                        else if d = CHR ''-'' then (- 1, t)
                        else (1, r));
                 ds = takeWhile is_digit r'
             in if ds = [] then 0 else sg * dec_value ds)
          else 0)"

text \<open>
  The longest prefix that is a \<open>StrUnsignedDecimalLiteral\<close>: \<open>Infinity\<close>, or digits with
  an optional fraction and exponent, or a fraction with an optional exponent. \<open>None\<close>
  when no prefix is one. The numeral's exact value is rounded to a double.
\<close>

definition parse_unsigned :: "string \<Rightarrow> number option" where
  "parse_unsigned s =
     (if starts_with ''Infinity'' s then Some PosInf
      else
        let ip = takeWhile is_digit s;
            r1 = dropWhile is_digit s;
            (fp, r2) =
              (case r1 of
                 [] \<Rightarrow> ([], r1)
               | c # t \<Rightarrow>
                   if c = CHR ''.'' then (takeWhile is_digit t, dropWhile is_digit t)
                   else ([], r1))
        in if ip = [] \<and> fp = [] then None
           else Some (fl (of_int (dec_value (ip @ fp))
                          * ipow 10 (parse_exponent r2 - int (length fp)))))"

text \<open>
  \<open>parseFloat\<close>: leading white space is skipped, the longest prefix that is a
  \<open>StrDecimalLiteral\<close> is converted, and the result is NaN when there is no such prefix.
\<close>

definition parseFloat :: "string \<Rightarrow> number" where
  "parseFloat s =
     (let t = dropWhile is_space s;
          r = (case t of
                 [] \<Rightarrow> None
               | c # u \<Rightarrow>
                   if c = CHR ''-'' then map_option num_neg (parse_unsigned u)
                   else if c = CHR ''+'' then parse_unsigned u
                   else parse_unsigned t)
      in case r of None \<Rightarrow> NaN | Some x \<Rightarrow> x)"

section \<open>The calculator\<close>

text \<open>
  The component \<open>App\<close> holds five state variables; the record has one field for each,
  with the initial values of the \<open>useState\<close> calls.
\<close>

datatype Operation = Add | Sub | Mul | Div

record state =
  display :: string
  previousValue :: "number option"
  operation :: "Operation option"
  waitingForOperand :: bool
  error :: "string option"

definition init :: state where
  "init = \<lparr>display = ''0'', previousValue = None, operation = None,
            waitingForOperand = False, error = None\<rparr>"

text \<open>
  A handler reads the state variables of the render it was created in and calls state
  setters; the calls take effect together, in the order they were made, once the handler
  has returned. A handler is therefore a function from the state it reads to the list of
  setter calls it makes, and \<open>commit\<close> applies such a list.
\<close>

datatype setter =
    SetDisplay string
  | SetPreviousValue "number option"
  | SetOperation "Operation option"
  | SetWaitingForOperand bool
  | SetError "string option"

fun apply_setter :: "setter \<Rightarrow> state \<Rightarrow> state" where
  "apply_setter (SetDisplay v) s = s\<lparr>display := v\<rparr>"
| "apply_setter (SetPreviousValue v) s = s\<lparr>previousValue := v\<rparr>"
| "apply_setter (SetOperation v) s = s\<lparr>operation := v\<rparr>"
| "apply_setter (SetWaitingForOperand v) s = s\<lparr>waitingForOperand := v\<rparr>"
| "apply_setter (SetError v) s = s\<lparr>error := v\<rparr>"

definition commit :: "setter list \<Rightarrow> state \<Rightarrow> state" where
  "commit calls s = fold apply_setter calls s"

definition inputNumber :: "string \<Rightarrow> state \<Rightarrow> setter list" where
  "inputNumber num s =
     (if waitingForOperand s then
        [SetDisplay num, SetWaitingForOperand False, SetError None]
      else
        [SetDisplay (if display s = ''0'' then num else display s @ num)])"

definition inputDecimal :: "state \<Rightarrow> setter list" where
  "inputDecimal s =
     (if waitingForOperand s then
        [SetDisplay ''0.'', SetWaitingForOperand False]
      else if CHR ''.'' \<notin> set (display s) then
        [SetDisplay (display s @ ''.'')]
      else [])"

definition clear :: "state \<Rightarrow> setter list" where
  "clear s =
     [SetDisplay ''0'', SetPreviousValue None, SetOperation None,
      SetWaitingForOperand False, SetError None]"

text \<open>The \<open>switch\<close> of \<open>performOperation\<close>, after the test for a zero divisor.\<close>

fun apply_operation :: "Operation \<Rightarrow> number \<Rightarrow> number \<Rightarrow> number" where
  "apply_operation Add currentValue inputValue = num_add currentValue inputValue"
| "apply_operation Sub currentValue inputValue = num_sub currentValue inputValue"
| "apply_operation Mul currentValue inputValue = num_mul currentValue inputValue"
| "apply_operation Div currentValue inputValue = num_div currentValue inputValue"

text \<open>\<open>Math.round(result * 1000000000) / 1000000000\<close>\<close>

definition round9 :: "number \<Rightarrow> number" where
  "round9 result = num_div (Math_round (num_mul result (Val 1000000000))) (Val 1000000000)"

text \<open>
  \<open>performOperation\<close>. Each \<open>return\<close> of the source ends the list of setter calls. The
  \<open>default\<close> branch of the \<open>switch\<close> and the \<open>catch\<close> block are not reached: the
  operation is one of the four operators, and nothing in the \<open>try\<close> block throws.
\<close>

definition performOperation :: "Operation option \<Rightarrow> state \<Rightarrow> setter list" where
  "performOperation nextOperation s =
     (let inputValue = parseFloat (display s);
          finish = [SetWaitingForOperand True, SetOperation nextOperation]
      in if isNaN inputValue then [SetError (Some ''Invalid input'')]
         else
           case previousValue s of
             None \<Rightarrow> SetPreviousValue (Some inputValue) # finish
           | Some pv \<Rightarrow>
               (case operation s of
                  None \<Rightarrow> finish
                | Some op \<Rightarrow>
                    let currentValue = or_zero pv
                    in if op = Div \<and> strict_eq_zero inputValue then
                         [SetError (Some ''Cannot divide by zero'')]
                       else
                         let result = apply_operation op currentValue inputValue
                         in if \<not> isFinite result then
                              [SetError (Some ''Result is too large'')]
                            else
                              let result = round9 result
                              in [SetDisplay (String result),
                                  SetPreviousValue (Some result)] @ finish))"

definition calculate :: "state \<Rightarrow> setter list" where
  "calculate s =
     performOperation None s
       @ [SetOperation None, SetPreviousValue None, SetWaitingForOperand True]"

subsection \<open>Input events\<close>

text \<open>
  The buttons and the keyboard handler call \<open>inputNumber\<close> with one of the ten digit
  characters, \<open>inputDecimal\<close>, \<open>performOperation\<close> with an operator, \<open>calculate\<close> and
  \<open>clear\<close>. \<open>Operator None\<close> is \<open>performOperation(null)\<close>, which the interface never
  calls by itself but which the description of the component allows.
\<close>

datatype event = Digit char | Decimal | Operator "Operation option" | Equals | Clear

fun handler :: "event \<Rightarrow> state \<Rightarrow> setter list" where
  "handler (Digit c) s = inputNumber [c] s"
| "handler Decimal s = inputDecimal s"
| "handler (Operator nextOperation) s = performOperation nextOperation s"
| "handler Equals s = calculate s"
| "handler Clear s = clear s"

definition step :: "event \<Rightarrow> state \<Rightarrow> state" where
  "step e s = commit (handler e s) s"

definition run :: "event list \<Rightarrow> state \<Rightarrow> state" where
  "run es s = fold step es s"

fun valid_event :: "event \<Rightarrow> bool" where
  "valid_event (Digit c) = is_digit c"
| "valid_event _ = True"

inductive reachable :: "state \<Rightarrow> bool" where
  reachable_init: "reachable init"
| reachable_step: "reachable s \<Longrightarrow> valid_event e \<Longrightarrow> reachable (step e s)"

subsection \<open>Notions of the specification\<close>

text \<open>
  A display value that consists only of digits and at most one decimal point.
\<close>

definition valid_numeral :: "string \<Rightarrow> bool" where
  "valid_numeral s =
     (list_all (\<lambda>c. is_digit c \<or> c = CHR ''.'') s
      \<and> length (filter (\<lambda>c. c = CHR ''.'') s) \<le> 1)"

text \<open>
  The exact arithmetic result of an operation, and a value rounded to nine decimal
  places, both over the rationals.
\<close>

fun exact_result :: "Operation \<Rightarrow> rat \<Rightarrow> rat \<Rightarrow> rat" where
  "exact_result Add a b = a + b"
| "exact_result Sub a b = a - b"
| "exact_result Mul a b = a * b"
| "exact_result Div a b = a / b"

definition round_9_places :: "rat \<Rightarrow> rat" where
  "round_9_places r = of_int \<lfloor>r * 1000000000 + 1 / 2\<rfloor> / 1000000000"

text \<open>
  \<open>calculate\<close> as the specification describes it: \<open>select_operation(none)\<close>, then the
  pending operation and the accumulator are cleared and the input-mode flag is set.
\<close>

definition calculate_spec :: "state \<Rightarrow> state" where
  "calculate_spec s =
     (step (Operator None) s)
       \<lparr>operation := None, previousValue := None, waitingForOperand := True\<rparr>"

text \<open>
  The display after a sequence of digits as the specification describes it: the digits
  are appended, and an original display of exactly \<open>0\<close> is replaced by the first digit.
\<close>

definition digits_appended :: "string \<Rightarrow> string \<Rightarrow> string" where
  "digits_appended disp ds = (if disp = ''0'' \<and> ds \<noteq> [] then ds else disp @ ds)"

text \<open>A digit sequence without its leading zeros, \<open>0\<close> when nothing else is left.\<close>

definition strip_zeros :: "string \<Rightarrow> string" where
  "strip_zeros ds =
     (if dropWhile (\<lambda>c. c = CHR ''0'') ds = [] then ''0''
      else dropWhile (\<lambda>c. c = CHR ''0'') ds)"

text \<open>
  A state in which the accumulator holds \<open>2\<^sup>1\<^sup>0\<^sup>0\<^sup>0\<close> (about \<open>1.07 \<times> 10\<^sup>3\<^sup>0\<^sup>1\<close>, a double), a
  multiplication is pending and the operand \<open>1\<close> has been entered.
\<close>

definition overflow_state :: state where
  "overflow_state =
     \<lparr>display = ''1'', previousValue = Some (Val (ipow 2 1000)), operation = Some Mul,
      waitingForOperand = False, error = None\<rparr>"

text \<open>The keys that lead there: the 302 digits of \<open>2\<^sup>1\<^sup>0\<^sup>0\<^sup>0\<close>, then \<open>*\<close> and \<open>1\<close>.\<close>

definition overflow_keys :: "event list" where
  "overflow_keys =
     map Digit
       (''1071508607186267320948425049060001810561404811705533607443750388370351051124''
            @ ''9361224931983788156958581275946729175531468251871452856923140435984577574698''
            @ ''5748039345677748242309854210746050623711418779541821530464749835819412673987''
            @ ''67559165543946077062914571196477686542167660429831652624386837205668069376'')
     @ [Operator (Some Mul), Digit CHR ''1'']"

text \<open>The display after one more digit, when the input-mode flag is clear.\<close>

definition typed :: "string \<Rightarrow> char \<Rightarrow> string" where
  "typed d c = (if d = ''0'' then [c] else d @ [c])"

text \<open>
  The form of a displayed result: an optional minus sign, then digits with at most one
  decimal point, then optionally an exponent, which is \<open>e\<close>, a sign and digits.
\<close>

definition exponent_part :: "string \<Rightarrow> bool" where
  "exponent_part x =
     (case x of
        [] \<Rightarrow> True
      | c # r \<Rightarrow>
          c = CHR ''e''
          \<and> (case r of
                [] \<Rightarrow> False
              | sg # ds \<Rightarrow>
                  (sg = CHR ''+'' \<or> sg = CHR ''-'') \<and> ds \<noteq> [] \<and> list_all is_digit ds))"

definition unsigned_numeral :: "string \<Rightarrow> bool" where
  "unsigned_numeral t =
     (takeWhile (\<lambda>c. c \<noteq> CHR ''e'') t \<noteq> []
      \<and> valid_numeral (takeWhile (\<lambda>c. c \<noteq> CHR ''e'') t)
      \<and> exponent_part (dropWhile (\<lambda>c. c \<noteq> CHR ''e'') t))"

definition result_numeral :: "string \<Rightarrow> bool" where
  "result_numeral str =
     (case str of
        [] \<Rightarrow> False
      | c # t \<Rightarrow> if c = CHR ''-'' then unsigned_numeral t else unsigned_numeral str)"

text \<open>
  The rounding step of \<open>performOperation\<close> multiplies the result by \<open>10\<^sup>9\<close>.
  \<open>scaled_finite s\<close> says that in the state \<open>s\<close> this product is finite whenever the
  result of the pending operation is; \<open>rounding_finite\<close> says it of the one event,
  \<open>overflow_free\<close> of every event of a sequence, each in the state it is handled in.
\<close>

definition scaled_finite :: "state \<Rightarrow> bool" where
  "scaled_finite s =
     (case previousValue s of
        None \<Rightarrow> True
      | Some pv \<Rightarrow>
          (case operation s of
             None \<Rightarrow> True
           | Some op \<Rightarrow>
               (let result = apply_operation op (or_zero pv) (parseFloat (display s))
                in if isFinite result then isFinite (num_mul result (Val 1000000000))
                   else True)))"

fun rounding_finite :: "event \<Rightarrow> state \<Rightarrow> bool" where
  "rounding_finite (Operator nextOperation) s = scaled_finite s"
| "rounding_finite Equals s = scaled_finite s"
| "rounding_finite _ s = True"

fun overflow_free :: "event list \<Rightarrow> state \<Rightarrow> bool" where
  "overflow_free [] s = True"
| "overflow_free (e # es) s = (rounding_finite e s \<and> overflow_free es (step e s))"

text \<open>
  What holds of the display in every state reached without such an overflow: it is a
  numeral of digits and at most one decimal point, or the input-mode flag is set and it
  is the string of a finite number, of the form of a displayed result.
\<close>

definition display_form :: "state \<Rightarrow> bool" where
  "display_form s =
     (valid_numeral (display s)
      \<or> (waitingForOperand s \<and> result_numeral (display s)
          \<and> (\<exists>r. isFinite r \<and> display s = String r)))"

subsection \<open>Sample sessions\<close>

text \<open>\<open>5 +\<close>: an operator has just been chosen.\<close>

definition five_plus :: state where
  "five_plus = run [Digit CHR ''5'', Operator (Some Add)] init"

text \<open>\<open>5 / 0\<close>, and the error state after a further operator key.\<close>

definition zero_divisor_entered :: state where
  "zero_divisor_entered = run [Digit CHR ''5'', Operator (Some Div), Digit CHR ''0''] init"

definition error_shown :: state where
  "error_shown = step (Operator (Some Add)) zero_divisor_entered"

text \<open>\<open>9007199254740992 + 1\<close>; the first operand is \<open>2\<^sup>5\<^sup>3\<close>.\<close>

definition two53_plus_one :: state where
  "two53_plus_one =
     run (map Digit ''9007199254740992'' @ [Operator (Some Add), Digit CHR ''1'']) init"

text \<open>\<open>- 5 =\<close> from the initial display \<open>0\<close>.\<close>

definition minus_five :: state where
  "minus_five = run [Operator (Some Sub), Digit CHR ''5'', Equals] init"

definition minus_five_keys :: "event list" where
  "minus_five_keys = [Operator (Some Sub), Digit CHR ''5'', Equals]"

text \<open>\<open>0.1 + 0.2 =\<close>, and the state before the last key.\<close>

definition tenth_plus_fifth :: "event list" where
  "tenth_plus_fifth =
     [Digit CHR ''0'', Decimal, Digit CHR ''1'', Operator (Some Add),
      Digit CHR ''0'', Decimal, Digit CHR ''2'', Equals]"

definition tenth_plus_fifth_entered :: state where
  "tenth_plus_fifth_entered = run (butlast tenth_plus_fifth) init"

declare pow_sq.simps [simp del] ilogi.simps [simp del] digits_of.simps [simp del]

section \<open>The arithmetic helpers\<close>

text \<open>\<open>pow_sq\<close> is the power function and \<open>ilogi\<close> the integer logarithm.\<close>

lemma pow_sq_power: "pow_sq b e = b ^ nat e"
proof (induction b e rule: pow_sq.induct)
  case (1 b e)
  show ?case
  proof (cases "e \<le> 0")
    case True
    then show ?thesis by (subst pow_sq.simps) simp
  next
    case False
    then have pos: "0 < e" by simp
    have sq: "(b * b) ^ nat (e div 2) = b ^ (2 * nat (e div 2))"
      by (simp add: power_mult power2_eq_square)
    show ?thesis
    proof (cases "even e")
      case True
      then have "nat e = 2 * nat (e div 2)"
        using pos by (auto elim!: evenE)
      with 1(1) [OF False True] sq pos True show ?thesis
        by (subst pow_sq.simps) simp
    next
      case odd: False
      then have "nat e = Suc (2 * nat (e div 2))"
        using pos by (auto elim!: oddE simp: nat_add_distrib nat_mult_distrib)
      with 1(2) [OF False odd] sq pos odd show ?thesis
        by (subst pow_sq.simps) simp
    qed
  qed
qed

lemma ilogi_nonneg: "0 \<le> ilogi b n"
proof (induction b n rule: ilogi.induct)
  case (1 b n)
  show ?case
  proof (cases "n < b \<or> b < 2")
    case True
    then show ?thesis by (subst ilogi.simps) simp
  next
    case False
    with 1 [OF False] show ?thesis
      by (subst ilogi.simps) (simp add: Let_def)
  qed
qed

lemma ilogi_bounds:
  "2 \<le> b \<Longrightarrow> 1 \<le> n \<Longrightarrow> b ^ nat (ilogi b n) \<le> n \<and> n < b ^ nat (ilogi b n + 1)"
proof (induction b n rule: ilogi.induct)
  case (1 b n)
  show ?case
  proof (cases "n < b")
    case True
    with 1(2,3) show ?thesis
      by (subst (1 2) ilogi.simps) simp
  next
    case False
    with 1(2) have rec: "\<not> (n < b \<or> b < 2)" by simp
    define j where "j = ilogi (b * b) n"
    have j0: "0 \<le> j" unfolding j_def by (rule ilogi_nonneg)
    from 1(2) have "2 \<le> b * b"
      by (smt (verit) mult_le_cancel_left1)
    with 1(1) [OF rec] 1(3) have
      lo: "(b * b) ^ nat j \<le> n" and hi: "n < (b * b) ^ nat (j + 1)"
      unfolding j_def by simp_all
    have e0: "(b * b) ^ k = b ^ (2 * k)" for k
      by (simp add: power_mult power2_eq_square)
    have e1: "(b * b) ^ nat j = b ^ nat (2 * j)"
      using j0 by (simp add: e0 nat_mult_distrib)
    have "nat (2 * j + 1 + 1) = 2 * nat (j + 1)"
      using j0 by simp
    then have e2: "(b * b) ^ nat (j + 1) = b ^ nat (2 * j + 1 + 1)"
      by (simp only: e0)
    have val: "ilogi b n = (if n < b ^ nat (2 * j + 1) then 2 * j else 2 * j + 1)"
      using rec by (subst ilogi.simps) (simp add: Let_def j_def pow_sq_power)
    show ?thesis
    proof (cases "n < b ^ nat (2 * j + 1)")
      case True
      with val lo e1 show ?thesis by simp
    next
      case False
      with val hi e2 show ?thesis by simp
    qed
  qed
qed

text \<open>\<open>ilog\<close> is the integer logarithm of a positive rational.\<close>

lemma ipow_nonneg: "0 \<le> e \<Longrightarrow> ipow b e = of_int (b ^ nat e)"
  by (simp add: ipow_def pow_sq_power)

lemma ipow_neg: "e < 0 \<Longrightarrow> ipow b e = 1 / of_int (b ^ nat (- e))"
  by (simp add: ipow_def pow_sq_power)

lemma inverse_le_of_le:
  fixes a B :: rat
  assumes "0 < a" and "0 < B" and "1 / a \<le> B"
  shows "1 / B \<le> a"
proof -
  from assms(1,3) have "1 \<le> B * a" by (simp add: pos_divide_le_eq)
  with assms(2) show ?thesis by (simp add: pos_divide_le_eq mult.commute)
qed

lemma less_inverse_of_less:
  fixes a C :: rat
  assumes "0 < a" and "0 < C" and "C < 1 / a"
  shows "a < 1 / C"
proof -
  from assms(1,3) have "C * a < 1" by (simp add: pos_less_divide_eq)
  with assms(2) show ?thesis by (simp add: pos_less_divide_eq mult.commute)
qed

lemma ilog_bounds:
  assumes a: "0 < a" and b: "2 \<le> b"
  shows "ipow b (ilog b a) \<le> a \<and> a < ipow b (ilog b a + 1)"
proof (cases "1 \<le> a")
  case True
  define k where "k = ilogi b \<lfloor>a\<rfloor>"
  define L where "L = b ^ nat k"
  define U where "U = b ^ nat (k + 1)"
  have k0: "0 \<le> k" unfolding k_def by (rule ilogi_nonneg)
  from True have "1 \<le> \<lfloor>a\<rfloor>" by simp
  with ilogi_bounds [OF b this] have lo: "L \<le> \<lfloor>a\<rfloor>" and hi: "\<lfloor>a\<rfloor> < U"
    unfolding k_def L_def U_def by simp_all
  from lo have "(of_int L :: rat) \<le> of_int \<lfloor>a\<rfloor>"
    by (simp only: of_int_le_iff)
  also have "\<dots> \<le> a" by simp
  finally have "of_int L \<le> a" .
  moreover have "ipow b k = of_int L"
    using k0 unfolding L_def by (rule ipow_nonneg)
  ultimately have 1: "ipow b k \<le> a" by simp
  from hi have "\<lfloor>a\<rfloor> + 1 \<le> U" by simp
  then have "(of_int (\<lfloor>a\<rfloor> + 1) :: rat) \<le> of_int U"
    by (simp only: of_int_le_iff)
  moreover have "a < of_int (\<lfloor>a\<rfloor> + 1)" by linarith
  ultimately have "a < of_int U" by (rule less_le_trans [rotated])
  moreover have "ipow b (k + 1) = of_int U"
    using k0 unfolding U_def by (intro ipow_nonneg) simp
  ultimately have 2: "a < ipow b (k + 1)" by simp
  have "ilog b a = k"
    using True by (simp add: ilog_def k_def)
  with 1 2 show ?thesis by simp
next
  case False
  then have a1: "a < 1" by simp
  define m where "m = \<lceil>1 / a\<rceil>"
  define j where "j = ilogi b (m - 1)"
  define L where "L = b ^ nat j"
  define U where "U = b ^ nat (j + 1)"
  have j0: "0 \<le> j" unfolding j_def by (rule ilogi_nonneg)
  from a a1 have "1 < 1 / a" by simp
  then have m2: "2 \<le> m" unfolding m_def by linarith
  then have "1 \<le> m - 1" by simp
  from ilogi_bounds [OF b this] have lo: "L \<le> m - 1" and hi: "m - 1 < U"
    unfolding j_def L_def U_def by simp_all
  have val: "ilog b a = - (j + 1)"
    using False by (simp add: ilog_def j_def m_def)
  have up: "1 / a \<le> of_int m" unfolding m_def by (rule le_of_int_ceiling)
  have dn: "of_int (m - 1) < 1 / a" unfolding m_def by linarith
  from hi have "m \<le> U" by simp
  then have mU: "(of_int m :: rat) \<le> of_int U"
    by (simp only: of_int_le_iff)
  with up have aU: "1 / a \<le> of_int U" by (rule order_trans)
  from m2 mU have Upos: "(0 :: rat) < of_int U" by linarith
  have "ipow b (- (j + 1)) = 1 / of_int U"
    using j0 unfolding U_def by (subst ipow_neg) (simp_all add: add.commute)
  with inverse_le_of_le [OF a Upos aU] have 1: "ipow b (- (j + 1)) \<le> a" by simp
  have 2: "a < ipow b (- j)"
  proof (cases "j = 0")
    case True
    have "ipow b 0 = 1" by (simp add: ipow_nonneg)
    with a1 True show ?thesis by simp
  next
    case False
    with j0 have jp: "0 < j" by simp
    from lo have "(of_int L :: rat) \<le> of_int (m - 1)"
      by (simp only: of_int_le_iff)
    from this dn have lt: "of_int L < 1 / a" by (rule le_less_trans)
    from b have "0 < L" unfolding L_def by simp
    then have Lpos: "(0 :: rat) < of_int L" by (simp only: of_int_0_less_iff)
    have "ipow b (- j) = 1 / of_int L"
      using jp unfolding L_def by (subst ipow_neg) simp_all
    with less_inverse_of_less [OF a Lpos lt] show ?thesis by simp
  qed
  have "ilog b a + 1 = - j" using val by simp
  with 1 2 show ?thesis unfolding val by (simp only: simp_thms)
qed

section \<open>The handlers as state transformers\<close>


lemma commit_Nil: "commit [] s = s"
  by (simp add: commit_def)

lemma commit_Cons: "commit (c # cs) s = commit cs (apply_setter c s)"
  by (simp add: commit_def)

lemma commit_append: "commit (xs @ ys) s = commit ys (commit xs s)"
  by (simp add: commit_def)

lemma step_Digit:
  "step (Digit c) s =
     (if waitingForOperand s
      then s\<lparr>display := [c], waitingForOperand := False, error := None\<rparr>
      else s\<lparr>display := (if display s = ''0'' then [c] else display s @ [c])\<rparr>)"
  by (simp add: step_def inputNumber_def commit_Nil commit_Cons)

lemma step_Decimal:
  "step Decimal s =
     (if waitingForOperand s then s\<lparr>display := ''0.'', waitingForOperand := False\<rparr>
      else if CHR ''.'' \<notin> set (display s) then s\<lparr>display := display s @ ''.''\<rparr>
      else s)"
  by (simp add: step_def inputDecimal_def commit_Nil commit_Cons)

lemma step_Clear: "step Clear s = init"
  by (simp add: step_def clear_def init_def commit_Nil commit_Cons)

lemma step_Equals:
  "step Equals s =
     (step (Operator None) s)
       \<lparr>operation := None, previousValue := None, waitingForOperand := True\<rparr>"
  by (simp add: step_def calculate_def commit_append commit_Nil commit_Cons)

lemma run_Nil: "run [] s = s"
  by (simp add: run_def)

lemma run_Cons: "run (e # es) s = run es (step e s)"
  by (simp add: run_def)

lemma run_append: "run (es @ fs) s = run fs (run es s)"
  by (simp add: run_def)

lemma run_snoc: "run (es @ [e]) s = step e (run es s)"
  by (simp add: run_def)

lemma reachable_run: "reachable s \<Longrightarrow> list_all valid_event es \<Longrightarrow> reachable (run es s)"
proof (induction es arbitrary: s)
  case Nil
  then show ?case by (simp add: run_Nil)
next
  case (Cons e es)
  then show ?case by (simp add: run_Cons reachable_step)
qed

text \<open>The outcomes of \<open>performOperation\<close>, one lemma for each path through it.\<close>

lemma performOperation_invalid:
  "isNaN (parseFloat (display s)) \<Longrightarrow>
   step (Operator nxt) s = s\<lparr>error := Some ''Invalid input''\<rparr>"
  by (simp add: step_def performOperation_def commit_Nil commit_Cons)

lemma performOperation_first:
  "\<not> isNaN (parseFloat (display s)) \<Longrightarrow> previousValue s = None \<Longrightarrow>
   step (Operator nxt) s =
     s\<lparr>previousValue := Some (parseFloat (display s)), waitingForOperand := True,
       operation := nxt\<rparr>"
  by (simp add: step_def performOperation_def commit_Nil commit_Cons)

lemma performOperation_no_pending:
  "\<not> isNaN (parseFloat (display s)) \<Longrightarrow> previousValue s = Some pv \<Longrightarrow>
   operation s = None \<Longrightarrow>
   step (Operator nxt) s = s\<lparr>waitingForOperand := True, operation := nxt\<rparr>"
  by (simp add: step_def performOperation_def commit_Nil commit_Cons)

lemma performOperation_divide_by_zero:
  "previousValue s = Some pv \<Longrightarrow> operation s = Some Div \<Longrightarrow>
   strict_eq_zero (parseFloat (display s)) \<Longrightarrow>
   step (Operator nxt) s = s\<lparr>error := Some ''Cannot divide by zero''\<rparr>"
  by (cases "parseFloat (display s)")
     (simp_all add: step_def performOperation_def commit_Nil commit_Cons)

lemma performOperation_overflow:
  "\<not> isNaN (parseFloat (display s)) \<Longrightarrow> previousValue s = Some pv \<Longrightarrow>
   operation s = Some op \<Longrightarrow> \<not> (op = Div \<and> strict_eq_zero (parseFloat (display s))) \<Longrightarrow>
   \<not> isFinite (apply_operation op (or_zero pv) (parseFloat (display s))) \<Longrightarrow>
   step (Operator nxt) s = s\<lparr>error := Some ''Result is too large''\<rparr>"
  by (auto simp add: step_def performOperation_def commit_Nil commit_Cons Let_def)

lemma performOperation_success:
  "\<not> isNaN (parseFloat (display s)) \<Longrightarrow> previousValue s = Some pv \<Longrightarrow>
   operation s = Some op \<Longrightarrow> \<not> (op = Div \<and> strict_eq_zero (parseFloat (display s))) \<Longrightarrow>
   isFinite (apply_operation op (or_zero pv) (parseFloat (display s))) \<Longrightarrow>
   step (Operator nxt) s =
     s\<lparr>display := String (round9 (apply_operation op (or_zero pv) (parseFloat (display s)))),
       previousValue := Some (round9 (apply_operation op (or_zero pv) (parseFloat (display s)))),
       waitingForOperand := True, operation := nxt\<rparr>"
  by (auto simp add: step_def performOperation_def commit_Nil commit_Cons Let_def)


text \<open>Every call of \<open>performOperation\<close> has one of these six effects.\<close>

lemma step_Operator_cases:
  "step (Operator nxt) s = s\<lparr>error := Some ''Invalid input''\<rparr>
   \<or> step (Operator nxt) s = s\<lparr>error := Some ''Cannot divide by zero''\<rparr>
   \<or> step (Operator nxt) s = s\<lparr>error := Some ''Result is too large''\<rparr>
   \<or> (\<exists>v. step (Operator nxt) s =
          s\<lparr>previousValue := Some v, waitingForOperand := True, operation := nxt\<rparr>)
   \<or> (previousValue s \<noteq> None
        \<and> step (Operator nxt) s = s\<lparr>waitingForOperand := True, operation := nxt\<rparr>)
   \<or> (\<exists>r. step (Operator nxt) s =
          s\<lparr>display := String r, previousValue := Some r,
            waitingForOperand := True, operation := nxt\<rparr>)"
proof (cases "isNaN (parseFloat (display s))")
  case True
  from performOperation_invalid [OF True] show ?thesis
    by blast
next
  case valid: False
  show ?thesis
  proof (cases "previousValue s")
    case None
    from performOperation_first [OF valid None] show ?thesis
      by blast
  next
    case (Some pv)
    show ?thesis
    proof (cases "operation s")
      case None
      from performOperation_no_pending [OF valid Some None] Some show ?thesis
        by blast
    next
      case pending: (Some op)
      show ?thesis
      proof (cases "op = Div \<and> strict_eq_zero (parseFloat (display s))")
        case True
        with performOperation_divide_by_zero [OF Some, of nxt] pending show ?thesis
          by blast
      next
        case nonzero: False
        show ?thesis
        proof (cases "isFinite (apply_operation op (or_zero pv) (parseFloat (display s)))")
          case True
          from performOperation_success [OF valid Some pending nonzero True]
          show ?thesis
            by blast
        next
          case False
          from performOperation_overflow [OF valid Some pending nonzero False]
          show ?thesis
            by blast
        qed
      qed
    qed
  qed
qed

lemma pending_has_accumulator_step:
  assumes "operation s \<noteq> None \<longrightarrow> previousValue s \<noteq> None"
  shows "operation (step e s) \<noteq> None \<longrightarrow> previousValue (step e s) \<noteq> None"
proof (cases e)
  case (Digit c)
  with assms show ?thesis by (simp add: step_Digit)
next
  case Decimal
  with assms show ?thesis by (simp add: step_Decimal)
next
  case (Operator nxt)
  from step_Operator_cases [of nxt s] assms show ?thesis
    unfolding Operator by (elim disjE exE conjE) simp_all
next
  case Equals
  then show ?thesis by (simp add: step_Equals)
next
  case Clear
  then show ?thesis by (simp add: step_Clear init_def)
qed

text \<open>Numerals that stay numerals when a digit or a decimal point is appended.\<close>

lemma valid_numeral_digit: "is_digit c \<Longrightarrow> valid_numeral [c]"
  by (auto simp: valid_numeral_def is_digit_def)

lemma valid_numeral_append_digit:
  "valid_numeral d \<Longrightarrow> is_digit c \<Longrightarrow> valid_numeral (d @ [c])"
  by (auto simp: valid_numeral_def is_digit_def)

lemma valid_numeral_append_point:
  "valid_numeral d \<Longrightarrow> CHR ''.'' \<notin> set d \<Longrightarrow> valid_numeral (d @ ''.'')"
  by (auto simp: valid_numeral_def filter_empty_conv)

lemma valid_numeral_zero_point: "valid_numeral ''0.''"
  by (simp add: valid_numeral_def is_digit_def)

text \<open>The value that \<open>round9\<close> returns when the scaled product does not overflow.\<close>

lemma num_div_Val: "num_div (Val z) (Val 1000000000) = fl (z / 1000000000)"
  by (simp add: num_div_def signed_zero_def fl_def)

lemma num_div_NegZero: "num_div NegZero (Val 1000000000) = NegZero"
  by (simp add: num_div_def signed_zero_def)

lemma floor_add_half_int: "\<lfloor>(of_int n :: rat) + 1 / 2\<rfloor> = n"
  by linarith

lemma round9_value:
  assumes "isFinite (num_mul result (Val 1000000000))"
  shows "round9 result = fl (of_int \<lfloor>val (num_mul result (Val 1000000000)) + 1 / 2\<rfloor> / 1000000000)
         \<or> (\<lfloor>val (num_mul result (Val 1000000000)) + 1 / 2\<rfloor> = 0 \<and> round9 result = NegZero)"
proof (cases "num_mul result (Val 1000000000)")
  case NaN
  with assms show ?thesis by simp
next
  case PosInf
  with assms show ?thesis by simp
next
  case NegInf
  with assms show ?thesis by simp
next
  case NegZero
  have "\<lfloor>(1 :: rat) / 2\<rfloor> = 0"
    by (rule floor_unique) simp_all
  with NegZero show ?thesis
    by (simp add: round9_def num_div_NegZero)
next
  case (Val y)
  show ?thesis
  proof (cases "y = of_int \<lfloor>y\<rfloor>")
    case True
    then have "\<lfloor>y + 1 / 2\<rfloor> = \<lfloor>y\<rfloor>"
      using floor_add_half_int [of "\<lfloor>y\<rfloor>"] by simp
    with True Val show ?thesis
      by (simp add: round9_def num_div_Val)
  next
    case False
    with Val show ?thesis
      by (simp add: round9_def num_div_Val num_div_NegZero Let_def)
  qed
qed

text \<open>Digits typed one after the other, with the input-mode flag clear.\<close>

lemma run_digits:
  "\<not> waitingForOperand s \<Longrightarrow>
   run (map Digit ds) s = s\<lparr>display := foldl typed (display s) ds\<rparr>"
proof (induction ds arbitrary: s)
  case Nil
  then show ?case by (simp add: run_Nil)
next
  case (Cons c cs)
  from Cons.prems have "step (Digit c) s = s\<lparr>display := typed (display s) c\<rparr>"
    by (simp add: step_Digit typed_def)
  with Cons show ?case
    by (simp add: run_Cons)
qed

lemma typed_append: "d \<noteq> ''0'' \<Longrightarrow> d \<noteq> [] \<Longrightarrow> foldl typed d ds = d @ ds"
proof (induction ds arbitrary: d)
  case Nil
  then show ?case by simp
next
  case (Cons c cs)
  from Cons.prems have "typed d c = d @ [c]" "d @ [c] \<noteq> ''0''" "d @ [c] \<noteq> []"
    by (auto simp: typed_def append_eq_Cons_conv)
  with Cons.IH [of "d @ [c]"] show ?case
    by simp
qed

lemma typed_zero: "foldl typed ''0'' ds = strip_zeros ds"
proof (induction ds)
  case Nil
  then show ?case by (simp add: strip_zeros_def)
next
  case (Cons c cs)
  have first: "typed ''0'' c = [c]"
    by (simp add: typed_def)
  show ?case
  proof (cases "c = CHR ''0''")
    case True
    with Cons first show ?thesis
      by (simp add: strip_zeros_def)
  next
    case False
    then have "foldl typed [c] cs = [c] @ cs"
      by (intro typed_append) simp_all
    with False first show ?thesis
      by (simp add: strip_zeros_def)
  qed
qed

lemma typed_empty: "ds \<noteq> [] \<Longrightarrow> foldl typed [] ds = strip_zeros ds"
  using typed_zero [of ds] by (cases ds) (simp_all add: typed_def)

section \<open>Finite results\<close>

text \<open>
  A value that \<open>fl\<close> returns is below \<open>2\<^sup>1\<^sup>0\<^sup>2\<^sup>4\<close>, and \<open>fl\<close> returns a finite number for
  every argument below \<open>2\<^sup>1\<^sup>0\<^sup>2\<^sup>3\<close>. Hence the rounding step returns a finite number
  when the scaled product is finite.
\<close>

lemma ipow_powi: "ipow b e = of_int b powi e"
  by (simp add: ipow_def pow_sq_power power_int_def power_inverse inverse_eq_divide
      power_one_over)

lemma ipow_pos: "0 < b \<Longrightarrow> 0 < ipow b e"
  by (simp add: ipow_powi)

lemma round_half_even_nonneg: "0 \<le> m \<Longrightarrow> 0 \<le> round_half_even m"
  by (simp add: round_half_even_def Let_def)

lemma round_half_even_le: "round_half_even m \<le> \<lfloor>m\<rfloor> + 1"
  by (simp add: round_half_even_def Let_def)

lemma fl_Val_less:
  assumes "fl r = Val v"
  shows "\<bar>v\<bar> < ipow 2 1024"
proof (cases "r = 0")
  case True
  with assms have "v = 0" by (simp add: fl_def)
  then show ?thesis by (simp add: ipow_pos)
next
  case False
  define q where "q = ipow 2 (max (ilog 2 \<bar>r\<bar>) (- 1022) - 52)"
  define n where "n = round_half_even (\<bar>r\<bar> / q)"
  define w where "w = of_int n * q"
  have q: "0 < q" unfolding q_def by (simp add: ipow_pos)
  then have "0 \<le> \<bar>r\<bar> / q" by simp
  then have "0 \<le> n" unfolding n_def by (rule round_half_even_nonneg)
  with q have w0: "0 \<le> w" unfolding w_def by simp
  have eq: "fl r = (if ipow 2 1024 \<le> w then (if r < 0 then NegInf else PosInf)
                   else if n = 0 then (if r < 0 then NegZero else Val 0)
                   else Val (if r < 0 then - w else w))"
    using False by (simp add: fl_def Let_def w_def n_def q_def)
  show ?thesis
  proof (cases "ipow 2 1024 \<le> w")
    case True
    with eq assms show ?thesis by (simp split: if_splits)
  next
    case small: False
    with eq assms have "v = 0 \<or> v = w \<or> v = - w"
      by (auto split: if_splits)
    with small w0 show ?thesis
      by (auto simp: ipow_pos)
  qed
qed

lemma fl_isFinite:
  assumes "\<bar>r\<bar> < ipow 2 1023"
  shows "isFinite (fl r)"
proof (cases "r = 0")
  case True
  then show ?thesis by (simp add: fl_def)
next
  case False
  define a where "a = \<bar>r\<bar>"
  define i where "i = ilog 2 a"
  define e where "e = max i (- 1022)"
  define q where "q = ipow 2 (e - 52)"
  define n where "n = round_half_even (a / q)"
  define w where "w = of_int n * q"
  from False have a: "0 < a" unfolding a_def by simp
  from ilog_bounds [OF a, of 2] have lo: "ipow 2 i \<le> a" and hi: "a < ipow 2 (i + 1)"
    unfolding i_def by simp_all
  from lo assms have "(2 :: rat) powi i < 2 powi 1023"
    unfolding a_def by (simp add: ipow_powi)
  then have "i < 1023"
    by (rule power_int_le_imp_less_exp [rotated]) simp_all
  then have e: "e \<le> 1022" and ie: "i \<le> e" unfolding e_def by simp_all
  have q: "0 < q" unfolding q_def by (simp add: ipow_pos)
  have "(2 :: rat) powi (53 + (e - 52)) = 2 powi 53 * 2 powi (e - 52)"
    by (rule power_int_add) simp
  moreover have "(53 :: int) + (e - 52) = e + 1" by simp
  ultimately have split: "(2 :: rat) powi (e + 1) = 2 powi 53 * 2 powi (e - 52)"
    by (simp only:)
  from ie have "(2 :: rat) powi (i + 1) \<le> 2 powi (e + 1)"
    by (intro power_int_increasing) simp_all
  with hi have "a < 2 powi (e + 1)" by (simp add: ipow_powi)
  also note split
  finally have "a / q < 2 powi 53"
    using q by (simp add: q_def ipow_powi pos_divide_less_eq)
  moreover define P :: int where "P = 2 ^ 53"
  ultimately have "a / q < of_int P" by simp
  then have "\<lfloor>a / q\<rfloor> < P" by (simp only: floor_less_iff)
  with round_half_even_le [of "a / q"] have "n \<le> P" unfolding n_def by linarith
  then have "(of_int n :: rat) \<le> of_int P" by (simp only: of_int_le_iff)
  then have "of_int n * q \<le> of_int P * q"
    using q by (intro mult_right_mono) simp_all
  also have "of_int P * q = 2 powi 53 * 2 powi (e - 52)"
    by (simp add: q_def ipow_powi P_def)
  also note split [symmetric]
  also from e have "(2 :: rat) powi (e + 1) \<le> 2 powi 1023"
    by (intro power_int_increasing) simp_all
  also have "(2 :: rat) powi 1023 < 2 powi 1024"
    by (intro power_int_strict_increasing) simp_all
  finally have "\<not> ipow 2 1024 \<le> w"
    unfolding w_def by (simp add: ipow_powi)
  then show ?thesis
    using False by (simp add: fl_def Let_def w_def n_def q_def e_def i_def a_def)
qed

lemma num_mul_Val_less: "num_mul x z = Val y \<Longrightarrow> \<bar>y\<bar> < ipow 2 1024"
  by (auto simp: num_mul_def signed_inf_def signed_zero_def ipow_pos fl_Val_less
      split: if_splits)

lemma ipow_1024: "ipow 2 1024 = 2 * ipow 2 1023"
proof -
  have "(2 :: rat) powi (1 + 1023) = 2 powi 1 * 2 powi 1023"
    by (rule power_int_add) simp
  then show ?thesis by (simp add: ipow_powi)
qed

lemma ipow_1023_ge: "1 \<le> ipow 2 1023"
  by (simp add: ipow_powi)

lemma scaled_down_isFinite:
  assumes "\<bar>z\<bar> \<le> \<bar>y\<bar> + 1" and "\<bar>y\<bar> < ipow 2 1024"
  shows "isFinite (fl (z / 1000000000))"
proof (rule fl_isFinite)
  from assms have "\<bar>z\<bar> < 3 * ipow 2 1023"
    using ipow_1023_ge by (simp add: ipow_1024)
  then have "\<bar>z\<bar> / 1000000000 < 3 * ipow 2 1023 / 1000000000"
    by (simp add: divide_strict_right_mono)
  also have "\<dots> \<le> ipow 2 1023"
    using ipow_1023_ge by simp
  finally show "\<bar>z / 1000000000\<bar> < ipow 2 1023"
    by simp
qed

lemma round9_isFinite:
  assumes "isFinite (num_mul x (Val 1000000000))"
  shows "isFinite (round9 x)"
proof (cases "num_mul x (Val 1000000000)")
  case NaN
  with assms show ?thesis by simp
next
  case PosInf
  with assms show ?thesis by simp
next
  case NegInf
  with assms show ?thesis by simp
next
  case NegZero
  then show ?thesis by (simp add: round9_def num_div_NegZero)
next
  case (Val y)
  then have y: "\<bar>y\<bar> < ipow 2 1024" by (rule num_mul_Val_less)
  show ?thesis
  proof (cases "y = of_int \<lfloor>y\<rfloor>")
    case True
    have "isFinite (fl (y / 1000000000))"
      by (rule scaled_down_isFinite [OF _ y]) simp
    with True Val show ?thesis
      by (simp add: round9_def num_div_Val)
  next
    case False
    have "\<bar>of_int \<lfloor>y + 1 / 2\<rfloor> :: rat\<bar> \<le> \<bar>y\<bar> + 1"
      by linarith
    then have "isFinite (fl (of_int \<lfloor>y + 1 / 2\<rfloor> / 1000000000))"
      using y by (rule scaled_down_isFinite)
    with False Val show ?thesis
      by (simp add: round9_def num_div_Val num_div_NegZero Let_def)
  qed
qed

section \<open>The form of number strings\<close>

text \<open>\<open>String\<close> writes every finite number in the form of a displayed result.\<close>

lemma is_digit_digit_char: "d < 10 \<Longrightarrow> is_digit (digit_char d)"
proof -
  assume "d < 10"
  then have "nat d < length ''0123456789''" by simp
  then have "''0123456789'' ! nat d \<in> set ''0123456789''" by (rule nth_mem)
  then show ?thesis by (simp only: is_digit_def digit_char_def)
qed

lemma digits_of_digits: "list_all is_digit (digits_of n) \<and> digits_of n \<noteq> []"
proof (induction n rule: digits_of.induct)
  case (1 n)
  show ?case
  proof (cases "n < 10")
    case True
    then show ?thesis
      by (subst (1 2) digits_of.simps) (simp add: is_digit_digit_char)
  next
    case False
    have "n mod 10 < 10" by simp
    then have "is_digit (digit_char (n mod 10))" by (rule is_digit_digit_char)
    with 1 [OF False] False show ?thesis
      by (subst (1 2) digits_of.simps) simp
  qed
qed

lemma zeros_digits: "list_all is_digit (zeros n)"
  by (simp add: zeros_def list_all_iff is_digit_def)

lemma is_digit_not_point: "is_digit c \<Longrightarrow> c \<noteq> CHR ''.''"
  by (auto simp: is_digit_def)

lemma valid_numeral_digits: "list_all is_digit ds \<Longrightarrow> valid_numeral ds"
proof -
  assume ds: "list_all is_digit ds"
  then have "filter (\<lambda>c. c = CHR ''.'') ds = []"
    by (auto simp: filter_empty_conv list_all_iff dest: is_digit_not_point)
  with ds show ?thesis
    by (simp add: valid_numeral_def list_all_iff)
qed

lemma valid_numeral_point:
  assumes "list_all is_digit a" and "list_all is_digit b"
  shows "valid_numeral (a @ ''.'' @ b)"
proof -
  from assms have "filter (\<lambda>c. c = CHR ''.'') a = []" "filter (\<lambda>c. c = CHR ''.'') b = []"
    by (auto simp: filter_empty_conv list_all_iff dest: is_digit_not_point)
  with assms show ?thesis
    by (auto simp: valid_numeral_def list_all_iff)
qed

lemma is_digit_not_e: "is_digit c \<Longrightarrow> c \<noteq> CHR ''e''"
  by (auto simp: is_digit_def)

lemma is_digit_not_minus: "is_digit c \<Longrightarrow> c \<noteq> CHR ''-''"
  by (auto simp: is_digit_def)

lemma valid_numeral_member:
  "valid_numeral m \<Longrightarrow> c \<in> set m \<Longrightarrow> is_digit c \<or> c = CHR ''.''"
  by (simp add: valid_numeral_def list_all_iff)

lemma valid_numeral_no_e: "valid_numeral m \<Longrightarrow> c \<in> set m \<Longrightarrow> c \<noteq> CHR ''e''"
  using is_digit_not_e valid_numeral_member by fastforce

lemma unsigned_numeral_plain:
  assumes "valid_numeral m" and "m \<noteq> []"
  shows "unsigned_numeral m"
proof -
  from assms(1) have "\<forall>c\<in>set m. c \<noteq> CHR ''e''"
    by (blast dest: valid_numeral_no_e)
  then have tw: "takeWhile (\<lambda>c. c \<noteq> CHR ''e'') m = m"
    and dw: "dropWhile (\<lambda>c. c \<noteq> CHR ''e'') m = []"
    by simp_all
  show ?thesis
    unfolding unsigned_numeral_def tw dw using assms by (simp add: exponent_part_def)
qed

lemma unsigned_numeral_exponent:
  assumes "valid_numeral m" and "m \<noteq> []" and "sg = CHR ''+'' \<or> sg = CHR ''-''"
    and "ds \<noteq> []" and "list_all is_digit ds"
  shows "unsigned_numeral (m @ ''e'' @ sg # ds)"
proof -
  from assms(1) have no_e: "\<And>c. c \<in> set m \<Longrightarrow> c \<noteq> CHR ''e''"
    by (blast dest: valid_numeral_no_e)
  then have tw: "takeWhile (\<lambda>c. c \<noteq> CHR ''e'') (m @ ''e'' @ sg # ds) = m"
    by simp
  from no_e have dw: "dropWhile (\<lambda>c. c \<noteq> CHR ''e'') (m @ ''e'' @ sg # ds) = ''e'' @ sg # ds"
    by simp
  show ?thesis
    unfolding unsigned_numeral_def tw dw using assms by (simp add: exponent_part_def)
qed

lemma list_all_take_drop:
  "list_all P xs \<Longrightarrow> list_all P (take n xs) \<and> list_all P (drop n xs)"
  by (auto simp: list_all_iff dest: in_set_takeD in_set_dropD)

lemma format_positive_unsigned: "unsigned_numeral (format_positive x)"
proof -
  obtain n k s where sh: "shortest x = (n, k, s)"
    by (cases "shortest x") auto
  define ds where "ds = digits_of s"
  have ds: "list_all is_digit ds" and ne: "ds \<noteq> []"
    unfolding ds_def using digits_of_digits [of s] by simp_all
  define ex where "ex = digits_of \<bar>n - 1\<bar>"
  have ex: "list_all is_digit ex" and exne: "ex \<noteq> []"
    unfolding ex_def using digits_of_digits [of "\<bar>n - 1\<bar>"] by simp_all
  define sg where "sg = (if n < 0 then CHR ''-'' else CHR ''+'')"
  have sg: "sg = CHR ''+'' \<or> sg = CHR ''-''" by (simp add: sg_def)
  define f1 where "f1 = ds @ zeros (n - k)"
  define f2 where "f2 = take (nat n) ds @ ''.'' @ drop (nat n) ds"
  define f3 where "f3 = ''0'' @ ''.'' @ (zeros (- n) @ ds)"
  define f4 where "f4 = ds @ ''e'' @ sg # ex"
  define f5 where "f5 = (take 1 ds @ ''.'' @ drop 1 ds) @ ''e'' @ sg # ex"
  note td = list_all_take_drop [OF ds]
  have fp: "format_positive x =
              (if - 5 \<le> n \<and> n \<le> 21
               then (if k \<le> n then f1 else if 0 < n then f2 else f3)
               else (if k = 1 then f4 else f5))"
    by (simp add: format_positive_def sh Let_def ds_def ex_def sg_def
        f1_def f2_def f3_def f4_def f5_def)
  from ds zeros_digits [of "n - k"] have "valid_numeral f1"
    unfolding f1_def by (intro valid_numeral_digits) simp
  with ne have u1: "unsigned_numeral f1"
    by (intro unsigned_numeral_plain) (simp_all add: f1_def)
  from td [of "nat n"] have "valid_numeral f2"
    unfolding f2_def by (intro valid_numeral_point) simp_all
  then have u2: "unsigned_numeral f2"
    by (rule unsigned_numeral_plain) (simp add: f2_def)
  from ds zeros_digits [of "- n"] have "valid_numeral f3"
    unfolding f3_def by (intro valid_numeral_point) (simp_all add: is_digit_def)
  then have u3: "unsigned_numeral f3"
    by (rule unsigned_numeral_plain) (simp add: f3_def)
  from ds have "valid_numeral ds" by (rule valid_numeral_digits)
  from this ne sg exne ex have u4: "unsigned_numeral f4"
    unfolding f4_def by (rule unsigned_numeral_exponent)
  from td [of 1] have "valid_numeral (take 1 ds @ ''.'' @ drop 1 ds)"
    by (intro valid_numeral_point) simp_all
  moreover have "take 1 ds @ ''.'' @ drop 1 ds \<noteq> []" by simp
  ultimately have u5: "unsigned_numeral f5"
    unfolding f5_def using sg exne ex by (rule unsigned_numeral_exponent)
  from u1 u2 u3 u4 u5 show ?thesis
    unfolding fp by (simp only: split: if_split) blast
qed

lemma unsigned_imp_result: "unsigned_numeral t \<Longrightarrow> result_numeral t"
proof -
  assume u: "unsigned_numeral t"
  then obtain c r where t: "t = c # r"
    by (cases t) (auto simp: unsigned_numeral_def)
  with u have "c \<noteq> CHR ''e''" and "valid_numeral (takeWhile (\<lambda>c. c \<noteq> CHR ''e'') (c # r))"
    by (auto simp: unsigned_numeral_def split: if_splits)
  then have "is_digit c \<or> c = CHR ''.''"
    by (intro valid_numeral_member [of "takeWhile (\<lambda>c. c \<noteq> CHR ''e'') (c # r)"]) simp_all
  then have "c \<noteq> CHR ''-''"
    using is_digit_not_minus by auto
  with u t show ?thesis
    by (simp add: result_numeral_def)
qed

lemma String_result_numeral: "isFinite r \<Longrightarrow> result_numeral (String r)"
proof (cases r)
  case (Val x)
  have zero: "result_numeral ''0''"
    by (simp add: result_numeral_def unsigned_numeral_def exponent_part_def
        valid_numeral_def is_digit_def)
  show ?thesis
  proof (cases "x = 0")
    case True
    with Val zero show ?thesis by simp
  next
    case nz: False
    show ?thesis
    proof (cases "x < 0")
      case True
      with Val nz format_positive_unsigned [of "- x"] show ?thesis
        by (simp add: result_numeral_def)
    next
      case False
      with Val nz unsigned_imp_result [OF format_positive_unsigned [of x]] show ?thesis
        by simp
    qed
  qed
qed (simp_all add: result_numeral_def unsigned_numeral_def exponent_part_def
      valid_numeral_def is_digit_def)

section \<open>The display invariant\<close>

lemma display_form_Operator:
  assumes inv: "display_form s" and fin: "scaled_finite s"
  shows "display_form (step (Operator nxt) s)
         \<and> display_form
             ((step (Operator nxt) s)
                \<lparr>operation := None, previousValue := None, waitingForOperand := True\<rparr>)"
proof -
  have kept: "display_form (s\<lparr>error := e\<rparr>)
      \<and> display_form (s\<lparr>error := e, operation := None, previousValue := None,
                         waitingForOperand := True\<rparr>)" for e
    using inv by (auto simp: display_form_def)
  show ?thesis
  proof (cases "isNaN (parseFloat (display s))")
    case True
    from kept [of "Some ''Invalid input''"] show ?thesis
      unfolding performOperation_invalid [OF True] by simp
  next
    case valid: False
    show ?thesis
    proof (cases "previousValue s")
      case None
      from inv show ?thesis
        unfolding performOperation_first [OF valid None]
        by (auto simp: display_form_def)
    next
      case (Some pv)
      show ?thesis
      proof (cases "operation s")
        case None
        from inv show ?thesis
          unfolding performOperation_no_pending [OF valid Some None]
          by (auto simp: display_form_def)
      next
        case pending: (Some op)
        define result where "result = apply_operation op (or_zero pv) (parseFloat (display s))"
        show ?thesis
        proof (cases "op = Div \<and> strict_eq_zero (parseFloat (display s))")
          case True
          then have "operation s = Some Div" and "strict_eq_zero (parseFloat (display s))"
            using pending by simp_all
          from performOperation_divide_by_zero [OF Some this, of nxt]
            kept [of "Some ''Cannot divide by zero''"]
          show ?thesis by simp
        next
          case nonzero: False
          show ?thesis
          proof (cases "isFinite result")
            case False
            from performOperation_overflow [OF valid Some pending nonzero, of nxt] False
              kept [of "Some ''Result is too large''"]
            show ?thesis by (simp add: result_def)
          next
            case True
            with fin Some pending have "isFinite (num_mul result (Val 1000000000))"
              by (simp add: scaled_finite_def result_def Let_def)
            then have r: "isFinite (round9 result)" by (rule round9_isFinite)
            then have "result_numeral (String (round9 result))"
              by (rule String_result_numeral)
            with r have "waitingForOperand s' \<Longrightarrow> display s' = String (round9 result)
                \<Longrightarrow> display_form s'" for s'
              by (auto simp: display_form_def)
            moreover from True
            have "step (Operator nxt) s =
                    s\<lparr>display := String (round9 result), previousValue := Some (round9 result),
                      waitingForOperand := True, operation := nxt\<rparr>"
              unfolding result_def
              by (intro performOperation_success [OF valid Some pending nonzero])
            ultimately show ?thesis by simp
          qed
        qed
      qed
    qed
  qed
qed

lemma display_form_step:
  assumes "display_form s" and "valid_event e" and "rounding_finite e s"
  shows "display_form (step e s)"
proof (cases e)
  case (Digit c)
  with assms show ?thesis
    by (auto simp: step_Digit display_form_def valid_numeral_digit valid_numeral_append_digit)
next
  case Decimal
  with assms show ?thesis
    by (auto simp: step_Decimal display_form_def valid_numeral_zero_point
        valid_numeral_append_point)
next
  case (Operator nxt)
  with assms display_form_Operator [of s nxt] show ?thesis by simp
next
  case Equals
  with assms display_form_Operator [of s None] show ?thesis by (simp add: step_Equals)
next
  case Clear
  then show ?thesis
    by (simp add: step_Clear init_def display_form_def valid_numeral_def is_digit_def)
qed

lemma display_form_run:
  "display_form s \<Longrightarrow> list_all valid_event es \<Longrightarrow> overflow_free es s \<Longrightarrow>
   display_form (run es s)"
proof (induction es arbitrary: s)
  case Nil
  then show ?case by (simp add: run_Nil)
next
  case (Cons e es)
  from Cons.prems have "display_form (step e s)"
    by (intro display_form_step) simp_all
  with Cons show ?case by (simp add: run_Cons)
qed

lemma display_form_init: "display_form init"
  by (simp add: display_form_def init_def valid_numeral_def is_digit_def)

section \<open>Evaluation of the sample sessions\<close>

lemma parseFloat_0: "parseFloat ''0'' = Val 0"
  by code_simp

lemma parseFloat_1: "parseFloat ''1'' = Val 1"
  by code_simp

lemma parseFloat_5: "parseFloat ''5'' = Val 5"
  by code_simp

lemma parseFloat_fifth: "parseFloat ''0.2'' = Val (3602879701896397 / 18014398509481984)"
  by code_simp

lemma five_plus_eval:
  "five_plus = \<lparr>display = ''5'', previousValue = Some (Val 5), operation = Some Add,
                waitingForOperand = True, error = None\<rparr>"
  by code_simp

lemma five_plus_five: "num_add (Val 5) (Val 5) = Val 10"
  by code_simp

lemma round9_10: "round9 (Val 10) = Val 10"
  by code_simp

lemma String_10: "String (Val 10) = ''10''"
  by code_simp

lemma zero_divisor_entered_eval:
  "zero_divisor_entered =
     \<lparr>display = ''0'', previousValue = Some (Val 5), operation = Some Div,
      waitingForOperand = False, error = None\<rparr>"
  by code_simp

lemma error_shown_eval:
  "error_shown =
     \<lparr>display = ''0'', previousValue = Some (Val 5), operation = Some Div,
      waitingForOperand = False, error = Some ''Cannot divide by zero''\<rparr>"
  by code_simp

lemma two53_plus_one_eval:
  "two53_plus_one =
     \<lparr>display = ''1'', previousValue = Some (Val 9007199254740992), operation = Some Add,
      waitingForOperand = False, error = None\<rparr>"
  by code_simp

lemma two53_plus_one_step:
  "step (Operator None)
     \<lparr>display = ''1'', previousValue = Some (Val 9007199254740992), operation = Some Add,
      waitingForOperand = False, error = None\<rparr>
   = \<lparr>display = ''9007199254740992'', previousValue = Some (Val 9007199254740992),
      operation = None, waitingForOperand = True, error = None\<rparr>"
  by code_simp

lemma exact_sum_two53_plus_one:
  "round_9_places (exact_result Add 9007199254740992 1) = 9007199254740993"
  by code_simp

lemma minus_five_eval:
  "minus_five = \<lparr>display = ''-5'', previousValue = None, operation = None,
                 waitingForOperand = True, error = None\<rparr>"
  by code_simp

lemma minus_five_keys_free: "overflow_free minus_five_keys init"
  by code_simp

lemma minus_five_keys_display: "display (run minus_five_keys init) = ''-5''"
  by code_simp

lemma reachable_minus_five: "reachable minus_five"
  unfolding minus_five_def
  by (intro reachable_run reachable_init) (simp add: is_digit_def)

lemma tenth_plus_fifth_eval: "display (run tenth_plus_fifth init) = ''0.3''"
  by code_simp

lemma tenth_plus_fifth_entered_eval:
  "tenth_plus_fifth_entered =
     \<lparr>display = ''0.2'', previousValue = Some (Val (3602879701896397 / 36028797018963968)),
      operation = Some Add, waitingForOperand = False, error = None\<rparr>"
  by code_simp

lemma tenth_plus_fifth_sum:
  "apply_operation Add (or_zero (Val (3602879701896397 / 36028797018963968)))
     (Val (3602879701896397 / 18014398509481984)) = Val (1351079888211149 / 4503599627370496)"
  by code_simp

lemma tenth_plus_fifth_scaled:
  "isFinite (num_mul (Val (1351079888211149 / 4503599627370496)) (Val 1000000000))"
  by code_simp

lemma tenth_plus_fifth_round9:
  "round9 (Val (1351079888211149 / 4503599627370496)) = Val (5404319552844595 / 18014398509481984)"
  by code_simp

lemma String_three_tenths: "String (Val (5404319552844595 / 18014398509481984)) = ''0.3''"
  by code_simp

lemma overflow_keys_run: "run overflow_keys init = overflow_state"
  by code_simp

text \<open>
  The event sequences that the display invariant leaves aside are those of the rounding
  overflow: in \<open>overflow_state\<close> the next \<open>=\<close> is such an event.
\<close>

lemma overflow_state_not_rounding_finite: "\<not> rounding_finite Equals overflow_state"
  by code_simp

lemma overflow_state_result:
  "apply_operation Mul (or_zero (Val (ipow 2 1000))) (parseFloat ''1'') = Val (ipow 2 1000)"
  by code_simp

lemma overflow_state_step:
  "step (Operator None) overflow_state =
     \<lparr>display = ''Infinity'', previousValue = Some PosInf, operation = None,
      waitingForOperand = True, error = None\<rparr>"
  by code_simp

section \<open>The claims\<close>

subsection \<open>C1: a second operator key\<close>

text \<open>
  Claim C1 says that in a state with an accumulator, a pending operation and the
  input-mode flag set, \<open>performOperation\<close> with another operator only replaces the
  pending operation. The code does not look at the flag: it applies the pending
  operation to the accumulator and the displayed value. The amended claim, proved here:
  in such a state, when the application succeeds (the display parses, the divisor of a
  division is not zero, the result is finite), the pending operation becomes the new
  operator, the flag stays set, and the display and the accumulator both become the
  rounded result of the pending operation applied to the accumulator and the displayed
  value.
\<close>

theorem operator_applies_pending_operation:
  fixes s :: state and pv :: number and op :: Operation
  defines "r \<equiv> round9 (apply_operation op (or_zero pv) (parseFloat (display s)))"
  assumes "previousValue s = Some pv" and "operation s = Some op"
    and "waitingForOperand s"
    and "\<not> isNaN (parseFloat (display s))"
    and "\<not> (op = Div \<and> strict_eq_zero (parseFloat (display s)))"
    and "isFinite (apply_operation op (or_zero pv) (parseFloat (display s)))"
  shows "step (Operator nxt) s =
           s\<lparr>display := String r, previousValue := Some r, operation := nxt\<rparr>"
proof -
  from assms(4) have "s\<lparr>waitingForOperand := True\<rparr> = s"
    by (cases s) simp
  with performOperation_success [OF assms(5) assms(2) assms(3) assms(6) assms(7), of nxt]
  show ?thesis
    unfolding r_def by (cases s) simp
qed

text \<open>
  Witness for C1 as amended: after \<open>5 +\<close> the key \<open>*\<close> adds 5 and 5, shows \<open>10\<close> and
  leaves the multiplication pending.
\<close>

theorem operator_applies_pending_operation_witness:
  "previousValue five_plus = Some (Val 5) \<and> operation five_plus = Some Add
   \<and> waitingForOperand five_plus
   \<and> \<not> isNaN (parseFloat (display five_plus))
   \<and> \<not> (Add = Div \<and> strict_eq_zero (parseFloat (display five_plus)))
   \<and> isFinite (apply_operation Add (or_zero (Val 5)) (parseFloat (display five_plus)))
   \<and> step (Operator (Some Mul)) five_plus =
       five_plus\<lparr>display := ''10'', previousValue := Some (Val 10), operation := Some Mul\<rparr>"
proof -
  have result: "apply_operation Add (or_zero (Val 5)) (parseFloat (display five_plus)) = Val 10"
    by (simp add: five_plus_eval parseFloat_5 or_zero_def five_plus_five)
  have hyps: "previousValue five_plus = Some (Val 5)" "operation five_plus = Some Add"
    "waitingForOperand five_plus" "\<not> isNaN (parseFloat (display five_plus))"
    "\<not> (Add = Div \<and> strict_eq_zero (parseFloat (display five_plus)))"
    "isFinite (apply_operation Add (or_zero (Val 5)) (parseFloat (display five_plus)))"
    unfolding result by (simp_all add: five_plus_eval parseFloat_5)
  from operator_applies_pending_operation [OF hyps, of "Some Mul"]
  have "step (Operator (Some Mul)) five_plus =
          five_plus\<lparr>display := ''10'', previousValue := Some (Val 10), operation := Some Mul\<rparr>"
    unfolding result round9_10 String_10 .
  with hyps show ?thesis
    by blast
qed

text \<open>
  Counterexample to C1 as stated: after \<open>5 +\<close> an accumulator is held, an operation is
  pending and the flag is set, and the key \<open>*\<close> changes the display from \<open>5\<close> to \<open>10\<close>
  and the accumulator from 5 to 10.
\<close>

theorem second_operator_consumes_display:
  "previousValue five_plus = Some (Val 5) \<and> operation five_plus = Some Add
   \<and> waitingForOperand five_plus \<and> display five_plus = ''5''
   \<and> display (step (Operator (Some Mul)) five_plus) = ''10''
   \<and> previousValue (step (Operator (Some Mul)) five_plus) = Some (Val 10)"
proof -
  have "step (Operator (Some Mul)) five_plus =
          \<lparr>display = ''10'', previousValue = Some (Val 10), operation = Some Mul,
           waitingForOperand = True, error = None\<rparr>"
    by code_simp
  then show ?thesis
    by (simp add: five_plus_eval)
qed

subsection \<open>C2: clearing the error\<close>

text \<open>
  Claim C2 says that \<open>inputNumber\<close> with any digit, and \<open>clear\<close>, clear the error.
  \<open>inputNumber\<close> calls \<open>setError(null)\<close> only in the branch for a set input-mode flag.
  The amended claim, proved here: \<open>clear\<close> clears the error, and \<open>inputNumber\<close> clears
  it when the input-mode flag is set and leaves the error field as it is when the flag is
  clear.
\<close>

theorem error_cleared_by_clear_or_fresh_digit:
  "error (step Clear s) = None
   \<and> error (step (Digit d) s) = (if waitingForOperand s then None else error s)"
  by (simp add: step_Clear init_def step_Digit)

text \<open>Witness for C2 as amended: the error state after \<open>5 / 0 +\<close> and the digit \<open>3\<close>.\<close>

theorem error_cleared_by_clear_or_fresh_digit_witness:
  "error (step Clear error_shown) = None
   \<and> error (step (Digit CHR ''3'') error_shown)
       = (if waitingForOperand error_shown then None else error error_shown)"
  using error_cleared_by_clear_or_fresh_digit [of error_shown "CHR ''3''"] .

text \<open>
  Counterexample to C2 as stated: \<open>5 / 0 +\<close> sets the error with the flag clear, and the
  digit \<open>3\<close> leaves it set.
\<close>

theorem digit_after_error_keeps_error:
  "error error_shown = Some ''Cannot divide by zero''
   \<and> error (step (Digit CHR ''3'') error_shown) = Some ''Cannot divide by zero''"
  by (simp add: error_shown_eval step_Digit)

subsection \<open>C3: the stored result\<close>

text \<open>
  Claim C3 says that a successful application stores the exact arithmetic result rounded
  to nine decimal places. The code computes on doubles. The amended claim, proved here:
  for every successful application whose result, multiplied by \<open>10\<^sup>9\<close> in double
  arithmetic, is finite, the stored value \<open>r\<close> is
  \<open>Math.round(result * 1000000000) / 1000000000\<close> evaluated in double arithmetic on the
  double result of the operation, that is, the double nearest to \<open>N / 10\<^sup>9\<close> where \<open>N\<close>
  is the integer nearest to the double product (or \<open>-0\<close> when \<open>N = 0\<close>); \<open>String(r)\<close>
  becomes the display value and \<open>r\<close> the accumulator; and from the initial state
  \<open>0.1 + 0.2 =\<close> yields the display \<open>0.3\<close>.
\<close>

theorem stored_result_is_rounded_double:
  fixes s :: state and pv :: number and op :: Operation and nxt :: "Operation option"
  defines "result \<equiv> apply_operation op (or_zero pv) (parseFloat (display s))"
  defines "N \<equiv> \<lfloor>val (num_mul result (Val 1000000000)) + 1 / 2\<rfloor>"
  assumes "\<not> isNaN (parseFloat (display s))"
    and "previousValue s = Some pv" and "operation s = Some op"
    and "\<not> (op = Div \<and> strict_eq_zero (parseFloat (display s)))"
    and "isFinite result"
    and "isFinite (num_mul result (Val 1000000000))"
  shows "display (step (Operator nxt) s) = String (round9 result)
         \<and> previousValue (step (Operator nxt) s) = Some (round9 result)
         \<and> (round9 result = fl (of_int N / 1000000000) \<or> (N = 0 \<and> round9 result = NegZero))
         \<and> display (run tenth_plus_fifth init) = ''0.3''"
proof -
  from assms(3-7) have
    "step (Operator nxt) s =
       s\<lparr>display := String (round9 result), previousValue := Some (round9 result),
         waitingForOperand := True, operation := nxt\<rparr>"
    unfolding result_def by (rule performOperation_success)
  then have "display (step (Operator nxt) s) = String (round9 result)"
    and "previousValue (step (Operator nxt) s) = Some (round9 result)"
    by simp_all
  moreover from assms(8)
  have "round9 result = fl (of_int N / 1000000000) \<or> (N = 0 \<and> round9 result = NegZero)"
    unfolding N_def by (rule round9_value)
  ultimately show ?thesis
    using tenth_plus_fifth_eval by blast
qed

text \<open>
  Witness for C3 as amended: the state after \<open>0.1 + 0.2\<close>, where the key \<open>=\<close> stores
  the double nearest to \<open>0.3\<close>.
\<close>

theorem stored_result_is_rounded_double_witness:
  "\<not> isNaN (parseFloat (display tenth_plus_fifth_entered))
   \<and> previousValue tenth_plus_fifth_entered = Some (Val (3602879701896397 / 36028797018963968))
   \<and> operation tenth_plus_fifth_entered = Some Add
   \<and> \<not> (Add = Div \<and> strict_eq_zero (parseFloat (display tenth_plus_fifth_entered)))
   \<and> isFinite (apply_operation Add (or_zero (Val (3602879701896397 / 36028797018963968)))
        (parseFloat (display tenth_plus_fifth_entered)))
   \<and> isFinite (num_mul (apply_operation Add (or_zero (Val (3602879701896397 / 36028797018963968)))
        (parseFloat (display tenth_plus_fifth_entered))) (Val 1000000000))
   \<and> display (step (Operator None) tenth_plus_fifth_entered) = ''0.3''
   \<and> previousValue (step (Operator None) tenth_plus_fifth_entered)
       = Some (Val (5404319552844595 / 18014398509481984))"
proof -
  have input: "parseFloat (display tenth_plus_fifth_entered)
                 = Val (3602879701896397 / 18014398509481984)"
    by (simp add: tenth_plus_fifth_entered_eval parseFloat_fifth)
  have hyps: "\<not> isNaN (parseFloat (display tenth_plus_fifth_entered))"
    "previousValue tenth_plus_fifth_entered = Some (Val (3602879701896397 / 36028797018963968))"
    "operation tenth_plus_fifth_entered = Some Add"
    "\<not> (Add = Div \<and> strict_eq_zero (parseFloat (display tenth_plus_fifth_entered)))"
    "isFinite (apply_operation Add (or_zero (Val (3602879701896397 / 36028797018963968)))
        (parseFloat (display tenth_plus_fifth_entered)))"
    "isFinite (num_mul (apply_operation Add (or_zero (Val (3602879701896397 / 36028797018963968)))
        (parseFloat (display tenth_plus_fifth_entered))) (Val 1000000000))"
    unfolding input tenth_plus_fifth_sum
    by (simp_all add: tenth_plus_fifth_entered_eval tenth_plus_fifth_scaled)
  from stored_result_is_rounded_double [OF hyps, of None]
  have "display (step (Operator None) tenth_plus_fifth_entered) = ''0.3''"
    and "previousValue (step (Operator None) tenth_plus_fifth_entered)
           = Some (Val (5404319552844595 / 18014398509481984))"
    unfolding input tenth_plus_fifth_sum tenth_plus_fifth_round9 String_three_tenths
    by blast+
  with hyps show ?thesis
    by blast
qed

text \<open>
  Counterexample to C3 as stated: for \<open>9007199254740992 + 1\<close> both operands parse
  exactly and the result is finite; the exact sum, rounded to nine decimal places, is
  9007199254740993, and the value stored and displayed is 9007199254740992.
\<close>

theorem double_sum_differs_from_exact_sum:
  "previousValue two53_plus_one = Some (Val 9007199254740992)
   \<and> operation two53_plus_one = Some Add
   \<and> parseFloat (display two53_plus_one) = Val 1
   \<and> previousValue (step (Operator None) two53_plus_one) = Some (Val 9007199254740992)
   \<and> display (step (Operator None) two53_plus_one) = ''9007199254740992''
   \<and> round_9_places (exact_result Add 9007199254740992 1) = 9007199254740993"
proof -
  have "previousValue two53_plus_one = Some (Val 9007199254740992)"
    and "operation two53_plus_one = Some Add"
    and "parseFloat (display two53_plus_one) = Val 1"
    and "previousValue (step (Operator None) two53_plus_one) = Some (Val 9007199254740992)"
    and "display (step (Operator None) two53_plus_one) = ''9007199254740992''"
    unfolding two53_plus_one_eval two53_plus_one_step
    by (simp_all add: parseFloat_1)
  with exact_sum_two53_plus_one show ?thesis
    by blast
qed

subsection \<open>C4: the form of the display value\<close>

text \<open>
  Claim C4 says that the display value of every reachable state consists of digits and
  at most one decimal point. A result is displayed as \<open>String\<close> writes it, with a minus
  sign when it is negative and with an exponent when it is very large or very small. The
  amended claim, proved here: in every state reached from the initial state by a sequence
  of events none of which overflows in the rounding step, the display value consists only
  of digits and at most one decimal point, or else the input-mode flag is set and the
  display value is the string of a finite number: an optional minus sign, digits with at
  most one decimal point, and optionally an exponent \<open>e\<close> with a sign and digits.
\<close>

theorem display_numeral_or_result:
  "list_all valid_event es \<Longrightarrow> overflow_free es init \<Longrightarrow>
   valid_numeral (display (run es init))
   \<or> (waitingForOperand (run es init) \<and> result_numeral (display (run es init))
       \<and> (\<exists>r. isFinite r \<and> display (run es init) = String r))"
  using display_form_run [OF display_form_init, of es] by (simp add: display_form_def)

text \<open>
  Witness for C4 as amended: the keys \<open>- 5 =\<close>, after which the display is \<open>-5\<close> with
  the input-mode flag set.
\<close>

theorem display_numeral_or_result_witness:
  "list_all valid_event minus_five_keys \<and> overflow_free minus_five_keys init
   \<and> \<not> valid_numeral (display (run minus_five_keys init))
   \<and> waitingForOperand (run minus_five_keys init)
   \<and> result_numeral (display (run minus_five_keys init))
   \<and> (\<exists>r. isFinite r \<and> display (run minus_five_keys init) = String r)"
proof -
  have keys: "list_all valid_event minus_five_keys"
    by (simp add: minus_five_keys_def is_digit_def)
  have "\<not> valid_numeral (display (run minus_five_keys init))"
    by (simp add: minus_five_keys_display valid_numeral_def is_digit_def)
  with display_numeral_or_result [OF keys minus_five_keys_free] keys minus_five_keys_free
  show ?thesis
    by blast
qed

text \<open>
  Counterexample to C4 as stated: \<open>- 5 =\<close> from the initial state computes \<open>0 - 5\<close>
  and displays \<open>-5\<close>.
\<close>

theorem negative_result_displayed:
  "reachable minus_five \<and> display minus_five = ''-5''
   \<and> \<not> valid_numeral (display minus_five)"
  using reachable_minus_five
  by (simp add: minus_five_eval valid_numeral_def is_digit_def)

subsection \<open>C5: division by zero\<close>

text \<open>
  Claim C5: in a state with an accumulator held and the pending operation divide, when
  the displayed divisor parses to zero, \<open>performOperation\<close> sets the error
  \<open>Cannot divide by zero\<close> and changes no other component of the state.
\<close>

theorem divide_by_zero_only_sets_error:
  assumes "previousValue s = Some pv" and "operation s = Some Div"
    and "strict_eq_zero (parseFloat (display s))"
  shows "step (Operator nxt) s = s\<lparr>error := Some ''Cannot divide by zero''\<rparr>"
  using assms by (rule performOperation_divide_by_zero)

text \<open>Witness for C5: the state after \<open>5 / 0\<close> and the key \<open>+\<close>.\<close>

theorem divide_by_zero_only_sets_error_witness:
  "previousValue zero_divisor_entered = Some (Val 5)
   \<and> operation zero_divisor_entered = Some Div
   \<and> strict_eq_zero (parseFloat (display zero_divisor_entered))
   \<and> step (Operator (Some Add)) zero_divisor_entered =
       zero_divisor_entered\<lparr>error := Some ''Cannot divide by zero''\<rparr>"
proof -
  have hyps: "previousValue zero_divisor_entered = Some (Val 5)"
    "operation zero_divisor_entered = Some Div"
    "strict_eq_zero (parseFloat (display zero_divisor_entered))"
    by (simp_all add: zero_divisor_entered_eval parseFloat_0)
  from divide_by_zero_only_sets_error [OF hyps, of "Some Add"] hyps show ?thesis
    by blast
qed

subsection \<open>C6: non-finite results\<close>

text \<open>
  Claim C6 says that a non-finite result fails with the error \<open>Result is too large\<close>
  and that no non-finite value is ever stored as display value or accumulator.
  \<open>performOperation\<close> tests \<open>isFinite(result)\<close> before it rounds, and the rounding
  multiplies by \<open>10\<^sup>9\<close>. After the keys \<open>overflow_keys\<close> the accumulator is \<open>2\<^sup>1\<^sup>0\<^sup>0\<^sup>0\<close>,
  the pending operation is multiply and the operand is \<open>1\<close>. The product \<open>2\<^sup>1\<^sup>0\<^sup>0\<^sup>0\<close> is
  finite and passes the test, the scaled product overflows, and \<open>Infinity\<close> is stored
  as display value and as accumulator with no error set.
\<close>

theorem rounding_overflow_stores_infinity:
  "run overflow_keys init = overflow_state
   \<and> isFinite (apply_operation Mul (or_zero (Val (ipow 2 1000)))
      (parseFloat (display overflow_state)))
   \<and> display (step (Operator None) overflow_state) = ''Infinity''
   \<and> previousValue (step (Operator None) overflow_state) = Some PosInf
   \<and> error (step (Operator None) overflow_state) = None"
proof -
  have "display overflow_state = ''1''"
    by (simp add: overflow_state_def)
  then have "isFinite (apply_operation Mul (or_zero (Val (ipow 2 1000)))
               (parseFloat (display overflow_state)))"
    by (simp only: overflow_state_result isFinite.simps)
  then show ?thesis
    by (simp add: overflow_state_step overflow_keys_run)
qed

subsection \<open>C7: calculate\<close>

text \<open>
  Claim C7: for every state, \<open>calculate\<close> produces the state that
  \<open>performOperation(null)\<close> produces, with the pending operation and the accumulator
  cleared and the input-mode flag set afterwards; the display value is the one that
  \<open>performOperation(null)\<close> left.
\<close>

theorem calculate_refines_spec: "step Equals s = calculate_spec s"
  by (simp add: calculate_spec_def step_Equals)

text \<open>Witness for C7: the state after \<open>5 +\<close>.\<close>

theorem calculate_refines_spec_witness: "step Equals five_plus = calculate_spec five_plus"
  using calculate_refines_spec [of five_plus] .

subsection \<open>C8: a pending operation has an accumulator\<close>

text \<open>
  Claim C8: in every state reachable from the initial state, a pending operation that is
  set comes with an accumulator that is held.
\<close>

theorem pending_operation_has_accumulator:
  "reachable s \<Longrightarrow> operation s \<noteq> None \<Longrightarrow> previousValue s \<noteq> None"
proof (induction rule: reachable.induct)
  case reachable_init
  then show ?case by (simp add: init_def)
next
  case (reachable_step s e)
  with pending_has_accumulator_step [of s e] show ?case by blast
qed

text \<open>Witness for C8: the state after \<open>5 +\<close>.\<close>

theorem pending_operation_has_accumulator_witness:
  "reachable five_plus \<and> operation five_plus \<noteq> None \<and> previousValue five_plus \<noteq> None"
proof -
  have r: "reachable five_plus"
    unfolding five_plus_def
    by (intro reachable_run reachable_init) (simp add: is_digit_def)
  have "operation five_plus \<noteq> None"
    by (simp add: five_plus_eval)
  with r pending_operation_has_accumulator [of five_plus] show ?thesis
    by blast
qed

subsection \<open>C9: a sequence of digits\<close>

text \<open>
  Claim C9 says that digits entered with the input-mode flag clear are appended to the
  display value, an original display of exactly \<open>0\<close> being replaced by the first digit.
  \<open>inputNumber\<close> replaces a display of \<open>0\<close> at every digit, not only at the first. The
  amended claim, proved here: with the flag clear, the display value after the digits
  \<open>d\<^sub>1 \<dots> d\<^sub>n\<close> is the original display value followed by the digits when the original
  is neither \<open>0\<close> nor empty; when the original is exactly \<open>0\<close> (or empty) and \<open>n > 0\<close>,
  it is \<open>d\<^sub>1 \<dots> d\<^sub>n\<close> without its leading zeros, and \<open>0\<close> when all digits are zeros.
\<close>

theorem digit_sequence_display:
  "\<not> waitingForOperand s \<Longrightarrow>
   display (run (map Digit ds) s) =
     (if ds = [] then display s
      else if display s = ''0'' \<or> display s = [] then strip_zeros ds
      else display s @ ds)"
  by (simp add: run_digits typed_append typed_zero typed_empty)

text \<open>Witness for C9 as amended: the digits \<open>007\<close> entered in the initial state.\<close>

theorem digit_sequence_display_witness:
  "\<not> waitingForOperand init \<and> display (run (map Digit ''007'') init) = ''7''"
  using digit_sequence_display [of init "''007''"]
  by (simp add: init_def strip_zeros_def)

text \<open>
  Counterexample to C9 as stated: in the initial state the flag is clear and the display
  is \<open>0\<close>; the digits \<open>0\<close>, \<open>5\<close> give the display \<open>5\<close>, where the claim gives \<open>05\<close>.
\<close>

theorem leading_zeros_dropped:
  "\<not> waitingForOperand init \<and> display init = ''0''
   \<and> display (run (map Digit ''05'') init) = ''5''
   \<and> digits_appended (display init) ''05'' = ''05''"
  by (simp add: init_def run_Cons run_Nil step_Digit digits_appended_def)

subsection \<open>C10: the decimal point and the error\<close>

text \<open>
  Claim C10: for every state, \<open>inputDecimal\<close> leaves the error field unchanged, also
  when the input-mode flag is set and it starts a fresh operand.
\<close>

theorem decimal_point_keeps_error: "error (step Decimal s) = error s"
  by (simp add: step_Decimal)

text \<open>
  Witness for C10: in the error state after \<open>5 / 0 +\<close> the decimal point keeps the
  error message.
\<close>

theorem decimal_point_keeps_error_witness:
  "error error_shown = Some ''Cannot divide by zero''
   \<and> error (step Decimal error_shown) = Some ''Cannot divide by zero''"
  using decimal_point_keeps_error [of error_shown]
  by (simp add: error_shown_eval)

end
